theory Spec2Isabelle
  imports Complex_Main
begin

section \<open>ERI data import: records, errors and the resource directory\<close>

text \<open>
  The development follows \<^verbatim>\<open>cgt_calc/parsers/eri/model.py\<close> and
  \<^verbatim>\<open>cgt_calc/parsers/eri/data_import.py\<close>.

  An \<^verbatim>\<open>EriTransaction\<close> is a \<^verbatim>\<open>BrokerTransaction\<close> whose constructor fixes every
  field except \<^verbatim>\<open>date\<close>, \<^verbatim>\<open>isin\<close>, \<^verbatim>\<open>price\<close> and \<^verbatim>\<open>currency\<close>; only these four are
  kept. A \<^verbatim>\<open>datetime.date\<close> is represented by its proleptic ordinal (\<^verbatim>\<open>date.toordinal()\<close>),
  which has the same equality and the same order. A finite \<^verbatim>\<open>Decimal\<close> is represented by
  the rational number it denotes. Both \<^verbatim>\<open>price\<close> and \<^verbatim>\<open>isin\<close> may be \<^verbatim>\<open>None\<close> in the
  base class, which is what the assertions of the merge test.
\<close>

type_synonym path = string

record EriTransaction =
  date :: nat
  isin :: "string option"
  price :: "rat option"
  currency :: string

record EriParserOutput =
  transactions :: "EriTransaction list"
  output_file_name :: string

datatype error =
    AssertionError string
  | InvalidTransactionError EriTransaction EriTransaction
  | FormatError
  | ParserError string

text \<open>
  \<^verbatim>\<open>InvalidTransactionError new current\<close> carries the transaction passed to the exception
  and the transaction named in its message, in this order. \<^verbatim>\<open>ParserError\<close> stands for
  whatever a parser raises once it has recognised a file.
\<close>

record EriParser =
  name :: string
  parse :: "path \<Rightarrow> error + EriParserOutput option"

datatype content = Rows "EriTransaction list" | Malformed

text \<open>
  The state the import acts on: the files of the \<^verbatim>\<open>eri\<close> resource directory by name,
  which paths are regular files, and what was printed. \<open>parse_calls\<close> is a trace added to
  the model: the names of the parsers whose \<^verbatim>\<open>parse\<close> has been called, in call order.
\<close>

record world =
  files :: "string \<rightharpoonup> content"
  is_file :: "path \<Rightarrow> bool"
  stdout :: "string list"
  parse_calls :: "string list"

section \<open>Helpers imported by the module\<close>

text \<open>
  Modelled from the spec: \<^verbatim>\<open>cgt_calc.util.approx_equal\<close> is imported by the module but its
  body is not among the sources. Sections 4.5 and 8 of the specification describe the
  comparison as numerical equality within an absolute tolerance, the boundary included.
\<close>

definition approx_equal :: "rat \<Rightarrow> rat \<Rightarrow> rat \<Rightarrow> bool" where
  "approx_equal val_a val_b epsilon = (\<bar>val_a - val_b\<bar> \<le> epsilon)"

text \<open>
  Modelled from the spec: \<^verbatim>\<open>read_eri_raw\<close> lives in the \<^verbatim>\<open>raw\<close> module, which is not among
  the sources. Section 4.2: the records of the store in file order, the empty sequence when
  the store does not exist yet, \<^verbatim>\<open>FormatError\<close> when a row cannot be parsed. The rows
  that \<^verbatim>\<open>csv.writer\<close> writes are taken to read back as the records they were written from.
\<close>

definition read_eri_raw :: "world \<Rightarrow> string \<Rightarrow> error + EriTransaction list" where
  "read_eri_raw w file_name =
     (case files w file_name of
        None \<Rightarrow> Inr []
      | Some Malformed \<Rightarrow> Inl FormatError
      | Some (Rows rows) \<Rightarrow> Inr rows)"

section \<open>\<^verbatim>\<open>validate_and_remove_duplicates\<close>\<close>

type_synonym key = "string option \<times> nat"
type_synonym index = "key \<rightharpoonup> EriTransaction"

definition key_of :: "EriTransaction \<Rightarrow> key" where
  "key_of transaction = (isin transaction, date transaction)"

definition truthy :: "string option \<Rightarrow> bool" where
  \<comment> \<open>Python truth value of an optional string: \<^verbatim>\<open>None\<close> and \<^verbatim>\<open>""\<close> are false.\<close>
  "truthy s = (case s of None \<Rightarrow> False | Some v \<Rightarrow> v \<noteq> [])"

definition tolerance :: rat where
  \<comment> \<open>\<^verbatim>\<open>Decimal("0.0001")\<close>\<close>
  "tolerance = 1 / 10000"

text \<open>
  The \<^verbatim>\<open>for\<close> loop of \<^verbatim>\<open>validate_and_remove_duplicates\<close>, with the dictionary
  \<^verbatim>\<open>transaction_index\<close> and the list \<^verbatim>\<open>result\<close> passed along. Every assertion and the
  \<^verbatim>\<open>raise\<close> end the loop with the error.
\<close>

fun validate_loop ::
  "EriTransaction list \<Rightarrow> index \<Rightarrow> EriTransaction list
     \<Rightarrow> error + (index \<times> EriTransaction list)" where
  "validate_loop [] transaction_index result = Inr (transaction_index, result)"
| "validate_loop (transaction # rest) transaction_index result =
     (case price transaction of
        None \<Rightarrow> Inl (AssertionError ''Transaction price not set'')
      | Some new_price \<Rightarrow>
          if \<not> truthy (isin transaction)
          then Inl (AssertionError ''Transaction ISIN not set'')
          else
            (case transaction_index (key_of transaction) of
               Some current_transaction \<Rightarrow>
                 (case price current_transaction of
                    None \<Rightarrow> Inl (AssertionError ''current transaction price not set'')
                  | Some current_price \<Rightarrow>
                      if approx_equal current_price new_price tolerance
                      then validate_loop rest transaction_index result
                      else Inl (InvalidTransactionError transaction current_transaction))
             | None \<Rightarrow>
                 validate_loop rest
                   (transaction_index(key_of transaction \<mapsto> transaction))
                   (result @ [transaction])))"

definition validate_and_remove_duplicates ::
  "EriTransaction list \<Rightarrow> error + EriTransaction list" where
  \<comment> \<open>\<^verbatim>\<open>list.sort\<close> is stable; so is \<open>sort_key\<close>.\<close>
  "validate_and_remove_duplicates txs =
     (case validate_loop txs Map.empty [] of
        Inl e \<Rightarrow> Inl e
      | Inr (transaction_index, result) \<Rightarrow> Inr (sort_key date result))"

section \<open>\<^verbatim>\<open>eri_import_from_file\<close>\<close>

definition bool_EriParserOutput :: "EriParserOutput \<Rightarrow> bool" where
  \<comment> \<open>The truth value of an \<^verbatim>\<open>EriParserOutput\<close> object, as \<^verbatim>\<open>assert data\<close> takes it: the
      dataclass defines neither \<^verbatim>\<open>__bool__\<close> nor \<^verbatim>\<open>__len__\<close>, so every instance is true.\<close>
  "bool_EriParserOutput data = True"

definition merge_records ::
  "EriTransaction list \<Rightarrow> EriTransaction list \<Rightarrow> error + EriTransaction list" where
  \<comment> \<open>The call in \<^verbatim>\<open>eri_import_from_file\<close>: the stored records followed by the parsed ones.\<close>
  "merge_records existing incoming = validate_and_remove_duplicates (existing @ incoming)"

definition print :: "string \<Rightarrow> world \<Rightarrow> world" where
  "print line w = w\<lparr>stdout := stdout w @ [line]\<rparr>"

text \<open>The body of the parser loop once a parser has returned \<open>data\<close>.\<close>

definition import_parsed :: "EriParser \<Rightarrow> EriParserOutput \<Rightarrow> world \<Rightarrow> (error + unit) \<times> world" where
  "import_parsed parser data w =
     (if \<not> bool_EriParserOutput data
      then (Inl (AssertionError ''ERI Parser emitted not transactions''), w)
      else
        let w1 = print (''ERI file successfully parsed with '' @ name parser) w in
        (case read_eri_raw w1 (output_file_name data) of
           Inl e \<Rightarrow> (Inl e, w1)
         | Inr existing \<Rightarrow>
             (case merge_records existing (transactions data) of
                Inl e \<Rightarrow> (Inl e, w1)
              | Inr merged \<Rightarrow>
                  (Inr (), w1\<lparr>files := (files w1)(output_file_name data \<mapsto> Rows merged)\<rparr>))))"

fun try_parsers :: "EriParser list \<Rightarrow> path \<Rightarrow> world \<Rightarrow> (error + unit) \<times> world" where
  "try_parsers [] p w = (Inr (), print ''WARNING: No ERI parser found'' w)"
| "try_parsers (parser # rest) p w =
     (let w1 = w\<lparr>parse_calls := parse_calls w @ [name parser]\<rparr> in
      case parse parser p of
        Inl e \<Rightarrow> (Inl e, w1)
      | Inr None \<Rightarrow> try_parsers rest p w1
      | Inr (Some data) \<Rightarrow> import_parsed parser data w1)"

definition eri_import_from_file ::
  "EriParser list \<Rightarrow> path \<Rightarrow> world \<Rightarrow> (error + unit) \<times> world" where
  \<comment> \<open>\<^verbatim>\<open>ERI_PARSERS\<close> is a parameter: the one registered parser is not among the sources.\<close>
  "eri_import_from_file ERI_PARSERS p w =
     (if \<not> is_file w p
      then (Inl (AssertionError ''Specified path not a file''), w)
      else try_parsers ERI_PARSERS p (print ''Processing ERI file'' w))"

section \<open>Notions used to state and prove the properties\<close>

text \<open>A record passes the two assertions at the head of the loop body.\<close>

definition well_formed :: "EriTransaction \<Rightarrow> bool" where
  "well_formed t = (price t \<noteq> None \<and> truthy (isin t))"

text \<open>
  The loop invariant: the dictionary holds exactly the accepted records, each under its
  own key, the accepted records have pairwise different keys, and each has passed the
  assertions.
\<close>

definition indexes :: "index \<Rightarrow> EriTransaction list \<Rightarrow> bool" where
  "indexes idx res =
     ((\<forall>k t. idx k = Some t \<longleftrightarrow> (t \<in> set res \<and> key_of t = k)) \<and>
      distinct (map key_of res) \<and> (\<forall>t \<in> set res. well_formed t))"

text \<open>The list \<^verbatim>\<open>result\<close> as the loop leaves it, before \<^verbatim>\<open>result.sort\<close>.\<close>

definition dedup :: "EriTransaction list \<Rightarrow> error + EriTransaction list" where
  "dedup txs =
     (case validate_loop txs Map.empty [] of
        Inl e \<Rightarrow> Inl e
      | Inr (transaction_index, result) \<Rightarrow> Inr result)"

text \<open>
  Several imports into one store, one after the other: each merge reads what the merge
  before it wrote, and the first failure ends the sequence.
\<close>

fun merge_all ::
  "EriTransaction list \<Rightarrow> EriTransaction list list \<Rightarrow> error + EriTransaction list" where
  "merge_all store [] = Inr store"
| "merge_all store (incoming # rest) =
     (case merge_records store incoming of
        Inl e \<Rightarrow> Inl e
      | Inr merged \<Rightarrow> merge_all merged rest)"

section \<open>Example data\<close>

text \<open>
  \<^verbatim>\<open>EriTransaction(date, isin, price, currency)\<close>. The dates below are the ordinals of
  2023-01-01 (738521) and 2023-03-01 (738580).
\<close>

definition new_EriTransaction :: "nat \<Rightarrow> string \<Rightarrow> rat \<Rightarrow> string \<Rightarrow> EriTransaction" where
  "new_EriTransaction d i p c = \<lparr>date = d, isin = Some i, price = Some p, currency = c\<rparr>"

definition ex_a :: EriTransaction where
  "ex_a = new_EriTransaction 738521 ''GB0001'' (12300 / 10000) ''GBP''"

definition ex_a_near :: EriTransaction where
  "ex_a_near = new_EriTransaction 738521 ''GB0001'' (12301 / 10000) ''GBP''"

definition ex_a_far :: EriTransaction where
  "ex_a_far = new_EriTransaction 738521 ''GB0001'' (15000 / 10000) ''GBP''"

definition ex_b :: EriTransaction where
  "ex_b = new_EriTransaction 738580 ''GB0002'' (25 / 10) ''USD''"

definition ex_c :: EriTransaction where
  "ex_c = new_EriTransaction 738521 ''GB0003'' 1 ''GBP''"

definition ex_no_price :: EriTransaction where
  "ex_no_price = \<lparr>date = 738521, isin = Some ''GB0004'', price = None, currency = ''GBP''\<rparr>"

definition ex_no_isin :: EriTransaction where
  "ex_no_isin = \<lparr>date = 738521, isin = Some [], price = Some 1, currency = ''GBP''\<rparr>"

definition empty_world :: world where
  "empty_world = \<lparr>files = Map.empty, is_file = (\<lambda>p. True), stdout = [], parse_calls = []\<rparr>"

definition stored_world :: world where
  "stored_world = empty_world\<lparr>files := [''fund.csv'' \<mapsto> Rows [ex_a]]\<rparr>"

definition declines :: EriParser where
  "declines = \<lparr>name = ''declines'', parse = (\<lambda>p. Inr None)\<rparr>"

definition accepts :: EriParser where
  "accepts =
     \<lparr>name = ''accepts'',
      parse = (\<lambda>p. Inr (Some \<lparr>transactions = [ex_b, ex_a_near],
                                  output_file_name = ''fund.csv''\<rparr>))\<rparr>"

definition accepts_later :: EriParser where
  "accepts_later =
     \<lparr>name = ''accepts_later'',
      parse = (\<lambda>p. Inr (Some \<lparr>transactions = [ex_c], output_file_name = ''other.csv''\<rparr>))\<rparr>"

definition accepts_conflicting :: EriParser where
  "accepts_conflicting =
     \<lparr>name = ''accepts_conflicting'',
      parse = (\<lambda>p. Inr (Some \<lparr>transactions = [ex_b, ex_a_far],
                                  output_file_name = ''fund.csv''\<rparr>))\<rparr>"

definition accepts_nothing :: EriParser where
  "accepts_nothing =
     \<lparr>name = ''accepts_nothing'',
      parse = (\<lambda>p. Inr (Some \<lparr>transactions = [], output_file_name = ''fund.csv''\<rparr>))\<rparr>"

lemmas example_defs =
  new_EriTransaction_def ex_a_def ex_a_near_def ex_a_far_def ex_b_def ex_c_def
  ex_no_price_def ex_no_isin_def

lemmas merge_defs =
  merge_records_def validate_and_remove_duplicates_def dedup_def key_of_def truthy_def
  approx_equal_def tolerance_def

lemmas import_defs =
  eri_import_from_file_def import_parsed_def bool_EriParserOutput_def read_eri_raw_def
  print_def Let_def empty_world_def stored_world_def declines_def accepts_def
  accepts_later_def accepts_conflicting_def accepts_nothing_def

section \<open>Lemmas about the loop and the import\<close>

lemma indexes_empty: "indexes Map.empty []"
  by (simp add: indexes_def)

lemma validate_loop_append:
  "validate_loop (xs @ ys) idx res =
     (case validate_loop xs idx res of
        Inl e \<Rightarrow> Inl e
      | Inr (idx', res') \<Rightarrow> validate_loop ys idx' res')"
  by (induction xs arbitrary: idx res) (auto split: option.splits)

lemma indexes_SomeD:
  "indexes idx res \<Longrightarrow> idx k = Some t \<Longrightarrow> t \<in> set res \<and> key_of t = k \<and> well_formed t"
  unfolding indexes_def by (simp del: split_paired_All)

lemma indexes_mem:
  "indexes idx res \<Longrightarrow> t \<in> set res \<Longrightarrow> idx (key_of t) = Some t"
  unfolding indexes_def by (simp del: split_paired_All)

lemma indexes_distinct: "indexes idx res \<Longrightarrow> distinct (map key_of res)"
  unfolding indexes_def by (simp del: split_paired_All)

lemma indexes_well_formed: "indexes idx res \<Longrightarrow> t \<in> set res \<Longrightarrow> well_formed t"
  unfolding indexes_def by (simp del: split_paired_All)

lemma indexes_None:
  assumes "indexes idx res"
  shows "(idx k = None) = (k \<notin> key_of ` set res)"
proof (cases "idx k")
  case None
  have "k \<notin> key_of ` set res"
  proof
    assume "k \<in> key_of ` set res"
    then obtain t where "t \<in> set res" "key_of t = k" by auto
    with assms have "idx k = Some t" using indexes_mem by metis
    with None show False by simp
  qed
  with None show ?thesis by simp
next
  case (Some t)
  with assms have "t \<in> set res" "key_of t = k" using indexes_SomeD by metis+
  then have "k \<in> key_of ` set res" by auto
  with Some show ?thesis by simp
qed

lemma indexes_insert:
  assumes "indexes idx res" "idx (key_of t) = None" "well_formed t"
  shows "indexes (idx(key_of t \<mapsto> t)) (res @ [t])"
proof -
  from assms(1,2) have fresh: "key_of t \<notin> key_of ` set res"
    by (simp add: indexes_None)
  have lookup: "((idx(key_of t \<mapsto> t)) k = Some u) = (u \<in> set (res @ [t]) \<and> key_of u = k)"
    for k u
  proof (cases "k = key_of t")
    case True
    have "u \<in> set res \<Longrightarrow> key_of u \<noteq> key_of t" using fresh by (metis imageI)
    with True show ?thesis by auto
  next
    case False
    have "(idx k = Some u) = (u \<in> set res \<and> key_of u = k)"
      using assms(1) indexes_SomeD indexes_mem by metis
    with False show ?thesis by auto
  qed
  have dist: "distinct (map key_of (res @ [t]))"
    using indexes_distinct [OF assms(1)] fresh by simp
  have wf: "\<forall>u \<in> set (res @ [t]). well_formed u"
    using indexes_well_formed [OF assms(1)] assms(3) by auto
  show ?thesis
    unfolding indexes_def using lookup dist wf by (simp del: split_paired_All)
qed

lemma validate_loop_indexes:
  "indexes idx res \<Longrightarrow> validate_loop xs idx res = Inr (idx', res') \<Longrightarrow> indexes idx' res'"
proof (induction xs arbitrary: idx res)
  case Nil
  then show ?case by simp
next
  case (Cons t xs)
  from Cons.prems(2) obtain p where p: "price t = Some p" and tr: "truthy (isin t)"
    by (auto split: option.splits if_splits)
  then have wf: "well_formed t" by (simp add: well_formed_def)
  show ?case
  proof (cases "idx (key_of t)")
    case None
    with Cons.prems(2) p tr
    have "validate_loop xs (idx(key_of t \<mapsto> t)) (res @ [t]) = Inr (idx', res')" by simp
    moreover have "indexes (idx(key_of t \<mapsto> t)) (res @ [t])"
      using indexes_insert [OF Cons.prems(1) None wf] .
    ultimately show ?thesis using Cons.IH by blast
  next
    case (Some cur)
    with Cons.prems(2) p tr have "validate_loop xs idx res = Inr (idx', res')"
      by (auto split: option.splits if_splits)
    then show ?thesis using Cons.IH Cons.prems(1) by blast
  qed
qed

lemma dedup_loop:
  "dedup txs = Inr res \<longleftrightarrow> (\<exists>idx. validate_loop txs Map.empty [] = Inr (idx, res))"
  by (auto simp: dedup_def split: sum.splits)

lemma dedup_indexes:
  assumes "dedup txs = Inr res"
  obtains idx where "validate_loop txs Map.empty [] = Inr (idx, res)" "indexes idx res"
proof -
  from assms obtain idx where l: "validate_loop txs Map.empty [] = Inr (idx, res)"
    by (auto simp: dedup_loop)
  from validate_loop_indexes [OF indexes_empty l] l that show ?thesis by blast
qed

lemma dedup_Inl:
  "dedup txs = Inl e \<longleftrightarrow> validate_loop txs Map.empty [] = Inl e"
  by (auto simp: dedup_def split: sum.splits)

lemma validate_dedup:
  "validate_and_remove_duplicates txs =
     (case dedup txs of Inl e \<Rightarrow> Inl e | Inr res \<Rightarrow> Inr (sort_key date res))"
  by (auto simp: validate_and_remove_duplicates_def dedup_def split: sum.splits)

lemma dedup_append_Inr:
  assumes "validate_loop pre Map.empty [] = Inr (idx, res)"
  shows "dedup (pre @ ys) =
     (case validate_loop ys idx res of Inl e \<Rightarrow> Inl e | Inr (idx', res') \<Rightarrow> Inr res')"
  by (simp add: dedup_def validate_loop_append assms)

lemma dedup_append_Inl: "dedup pre = Inl e \<Longrightarrow> dedup (pre @ ys) = Inl e"
  by (cases "validate_loop pre Map.empty []")
     (auto simp: dedup_def validate_loop_append)

lemma dedup_fresh:
  assumes "dedup pre = Inr res" "well_formed t" "key_of t \<notin> key_of ` set res"
  shows "dedup (pre @ [t]) = Inr (res @ [t])"
proof -
  from assms(1) obtain idx where l: "validate_loop pre Map.empty [] = Inr (idx, res)"
    and i: "indexes idx res" by (rule dedup_indexes)
  from i assms(3) have "idx (key_of t) = None" by (simp add: indexes_None)
  with assms(2) show ?thesis
    by (auto simp: dedup_append_Inr [OF l] well_formed_def)
qed

lemma dedup_seen:
  assumes "dedup pre = Inr res" "price t = Some p" "truthy (isin t)"
    and "cur \<in> set res" "key_of cur = key_of t" "price cur = Some cp"
  shows "dedup (pre @ t # post) =
     (if approx_equal cp p tolerance then dedup (pre @ post)
      else Inl (InvalidTransactionError t cur))"
proof -
  from assms(1) obtain idx where l: "validate_loop pre Map.empty [] = Inr (idx, res)"
    and i: "indexes idx res" by (rule dedup_indexes)
  from indexes_mem [OF i assms(4)] assms(5) have "idx (key_of t) = Some cur" by simp
  with assms(2,3,6) show ?thesis
    by (simp add: dedup_append_Inr [OF l])
qed

lemma validate_sorted:
  "validate_and_remove_duplicates txs = Inr out \<Longrightarrow> sorted (map date out)"
  by (auto simp: validate_dedup split: sum.splits)

lemma merge_all_sorted:
  "merge_all store batches = Inr out \<Longrightarrow> batches \<noteq> [] \<or> sorted (map date store)
     \<Longrightarrow> sorted (map date out)"
proof (induction batches arbitrary: store)
  case Nil
  then show ?case by simp
next
  case (Cons incoming rest)
  from Cons.prems(1) obtain merged where m: "merge_records store incoming = Inr merged"
    and r: "merge_all merged rest = Inr out"
    by (auto split: sum.splits)
  from m have "sorted (map date merged)"
    by (simp add: merge_records_def validate_sorted)
  with Cons.IH [OF r] show ?case by simp
qed

lemma validate_loop_mono:
  "validate_loop xs idx res = Inr (idx', res') \<Longrightarrow> idx k = Some c \<Longrightarrow> idx' k = Some c"
proof (induction xs arbitrary: idx res)
  case Nil
  then show ?case by simp
next
  case (Cons t xs)
  from Cons.prems(1) obtain p where p: "price t = Some p" and tr: "truthy (isin t)"
    by (auto split: option.splits if_splits)
  show ?case
  proof (cases "idx (key_of t)")
    case None
    with Cons.prems(1) p tr
    have l: "validate_loop xs (idx(key_of t \<mapsto> t)) (res @ [t]) = Inr (idx', res')" by simp
    from None Cons.prems(2) have "k \<noteq> key_of t" by auto
    with Cons.prems(2) have "(idx(key_of t \<mapsto> t)) k = Some c" by simp
    with Cons.IH [OF l] show ?thesis .
  next
    case (Some cur)
    with Cons.prems(1) p tr have "validate_loop xs idx res = Inr (idx', res')"
      by (auto split: option.splits if_splits)
    with Cons.IH Cons.prems(2) show ?thesis by blast
  qed
qed

lemma approx_equal_refl: "approx_equal p p tolerance"
  by (simp add: approx_equal_def tolerance_def)

lemma validate_loop_revisit:
  "validate_loop xs idx res = Inr (idx', res') \<Longrightarrow> validate_loop xs idx' r = Inr (idx', r)"
proof (induction xs arbitrary: idx res)
  case Nil
  then show ?case by simp
next
  case (Cons t xs)
  from Cons.prems obtain p where p: "price t = Some p" and tr: "truthy (isin t)"
    by (auto split: option.splits if_splits)
  show ?case
  proof (cases "idx (key_of t)")
    case None
    with Cons.prems p tr
    have l: "validate_loop xs (idx(key_of t \<mapsto> t)) (res @ [t]) = Inr (idx', res')" by simp
    have "idx' (key_of t) = Some t"
      by (rule validate_loop_mono [OF l]) simp
    with p tr Cons.IH [OF l] show ?thesis by (simp add: approx_equal_refl)
  next
    case (Some cur)
    with Cons.prems p tr obtain cp where cp: "price cur = Some cp"
      and ap: "approx_equal cp p tolerance"
      and l: "validate_loop xs idx res = Inr (idx', res')"
      by (auto split: option.splits if_splits)
    have "idx' (key_of t) = Some cur"
      by (rule validate_loop_mono [OF l Some])
    with p tr cp ap Cons.IH [OF l] show ?thesis by simp
  qed
qed

lemma validate_loop_accept_all:
  "indexes idx res \<Longrightarrow> distinct (map key_of xs) \<Longrightarrow> \<forall>t \<in> set xs. well_formed t
     \<Longrightarrow> key_of ` set xs \<inter> key_of ` set res = {}
     \<Longrightarrow> \<exists>idx'. validate_loop xs idx res = Inr (idx', res @ xs) \<and> indexes idx' (res @ xs)"
proof (induction xs arbitrary: idx res)
  case Nil
  then show ?case by simp
next
  case (Cons t xs)
  from Cons.prems(3) obtain p where p: "price t = Some p" and tr: "truthy (isin t)"
    and wf: "well_formed t"
    by (auto simp: well_formed_def)
  from Cons.prems(4) have "key_of t \<notin> key_of ` set res" by auto
  with Cons.prems(1) have none: "idx (key_of t) = None" by (simp add: indexes_None)
  have i: "indexes (idx(key_of t \<mapsto> t)) (res @ [t])"
    by (rule indexes_insert [OF Cons.prems(1) none wf])
  have d: "distinct (map key_of xs)" using Cons.prems(2) by simp
  have w: "\<forall>u \<in> set xs. well_formed u" using Cons.prems(3) by simp
  have "key_of t \<notin> key_of ` set xs" using Cons.prems(2) by simp
  with Cons.prems(4) have disj: "key_of ` set xs \<inter> key_of ` set (res @ [t]) = {}" by auto
  from Cons.IH [OF i d w disj] obtain idx'
    where l: "validate_loop xs (idx(key_of t \<mapsto> t)) (res @ [t]) = Inr (idx', (res @ [t]) @ xs)"
      and i': "indexes idx' ((res @ [t]) @ xs)" by blast
  have "validate_loop (t # xs) idx res = Inr (idx', res @ t # xs)"
    using l none p tr by simp
  moreover have "indexes idx' (res @ t # xs)" using i' by simp
  ultimately show ?case by blast
qed

lemma indexes_unique:
  assumes "indexes i1 r1" "indexes i2 r2" "set r1 = set r2"
  shows "i1 = i2"
proof
  fix k
  show "i1 k = i2 k"
  proof (cases "i1 k")
    case None
    with assms show ?thesis by (metis indexes_None)
  next
    case (Some t)
    with assms(1) have "t \<in> set r1" "key_of t = k" using indexes_SomeD by metis+
    with assms(2,3) have "i2 k = Some t" using indexes_mem by metis
    with Some show ?thesis by simp
  qed
qed

lemma validate_Inl: "dedup txs = Inl e \<Longrightarrow> validate_and_remove_duplicates txs = Inl e"
  by (simp add: validate_dedup)

lemma validate_loop_Inr_well_formed:
  "validate_loop xs idx res = Inr r \<Longrightarrow> \<forall>t \<in> set xs. well_formed t"
proof (induction xs arbitrary: idx res)
  case Nil
  then show ?case by simp
next
  case (Cons t xs)
  from Cons.prems obtain p where p: "price t = Some p" and tr: "truthy (isin t)"
    by (auto split: option.splits if_splits)
  from Cons.prems p tr obtain idx1 res1 where "validate_loop xs idx1 res1 = Inr r"
    by (auto split: option.splits if_splits)
  with Cons.IH have "\<forall>u \<in> set xs. well_formed u" by blast
  with p tr show ?case by (simp add: well_formed_def)
qed

lemma validate_loop_no_assertion:
  "indexes idx res \<Longrightarrow> \<forall>t \<in> set xs. well_formed t
     \<Longrightarrow> validate_loop xs idx res \<noteq> Inl (AssertionError msg)"
proof (induction xs arbitrary: idx res)
  case Nil
  then show ?case by simp
next
  case (Cons t xs)
  from Cons.prems(2) obtain p where p: "price t = Some p" and tr: "truthy (isin t)"
    and wf: "well_formed t"
    by (auto simp: well_formed_def)
  show ?case
  proof (cases "idx (key_of t)")
    case None
    have "indexes (idx(key_of t \<mapsto> t)) (res @ [t])"
      by (rule indexes_insert [OF Cons.prems(1) None wf])
    with Cons.IH Cons.prems(2)
    have "validate_loop xs (idx(key_of t \<mapsto> t)) (res @ [t]) \<noteq> Inl (AssertionError msg)"
      by simp
    with None p tr show ?thesis by simp
  next
    case (Some cur)
    with Cons.prems(1) have "well_formed cur" using indexes_SomeD by blast
    then obtain cp where cp: "price cur = Some cp" by (auto simp: well_formed_def)
    from Cons.IH [OF Cons.prems(1)] Cons.prems(2)
    have "validate_loop xs idx res \<noteq> Inl (AssertionError msg)" by simp
    with Some p tr cp show ?thesis by simp
  qed
qed

lemma validate_loop_ill_formed:
  "price t = None \<or> \<not> truthy (isin t)
     \<Longrightarrow> \<exists>msg. validate_loop (t # post) idx res = Inl (AssertionError msg)"
  by (cases "price t") auto

lemma files_print [simp]: "files (print line w) = files w"
  by (simp add: print_def)

lemma parse_calls_print [simp]: "parse_calls (print line w) = parse_calls w"
  by (simp add: print_def)

lemma is_file_print [simp]: "is_file (print line w) = is_file w"
  by (simp add: print_def)

lemma read_eri_raw_print [simp]: "read_eri_raw (print line w) f = read_eri_raw w f"
  by (simp add: read_eri_raw_def)

lemma read_eri_raw_calls [simp]:
  "read_eri_raw (w\<lparr>parse_calls := c\<rparr>) f = read_eri_raw w f"
  by (simp add: read_eri_raw_def)

lemma import_parsed_error_files:
  "import_parsed parser data w = (Inl e, w') \<Longrightarrow> files w' = files w"
  by (auto simp: import_parsed_def Let_def split: if_splits sum.splits)

lemma import_parsed_calls:
  "parse_calls (snd (import_parsed parser data w)) = parse_calls w"
  by (auto simp: import_parsed_def Let_def split: sum.splits)

lemma try_parsers_error_files:
  "try_parsers ps p w = (Inl e, w') \<Longrightarrow> files w' = files w"
proof (induction ps arbitrary: w)
  case Nil
  then show ?case by simp
next
  case (Cons parser rest)
  let ?w1 = "w\<lparr>parse_calls := parse_calls w @ [name parser]\<rparr>"
  show ?case
  proof (cases "parse parser p")
    case (Inl err)
    with Cons.prems show ?thesis by (auto simp: Let_def)
  next
    case (Inr r)
    show ?thesis
    proof (cases r)
      case None
      with Inr Cons.prems have "try_parsers rest p ?w1 = (Inl e, w')" by (simp add: Let_def)
      from Cons.IH [OF this] show ?thesis by simp
    next
      case (Some data)
      with Inr Cons.prems have "import_parsed parser data ?w1 = (Inl e, w')"
        by (simp add: Let_def)
      from import_parsed_error_files [OF this] show ?thesis by simp
    qed
  qed
qed

lemma try_parsers_declining:
  "\<forall>q \<in> set declining. parse q p = Inr None \<Longrightarrow>
   try_parsers (declining @ rest) p w =
     try_parsers rest p (w\<lparr>parse_calls := parse_calls w @ map name declining\<rparr>)"
proof (induction declining arbitrary: w)
  case Nil
  then show ?case by simp
next
  case (Cons q qs)
  then show ?case by (simp add: Let_def)
qed

lemma merge_records_again:
  assumes "merge_records E I = Inr S"
  shows "merge_records S I = Inr S"
proof -
  from assms obtain idx R where l: "validate_loop (E @ I) Map.empty [] = Inr (idx, R)"
    and S: "S = sort_key date R"
    by (auto simp: merge_records_def validate_and_remove_duplicates_def split: sum.splits)
  have iR: "indexes idx R" by (rule validate_loop_indexes [OF indexes_empty l])
  from l obtain idxE resE where "validate_loop I idxE resE = Inr (idx, R)"
    by (auto simp: validate_loop_append split: sum.splits)
  then have again: "validate_loop I idx S = Inr (idx, S)" by (rule validate_loop_revisit)
  have dS: "distinct (map key_of S)"
    using indexes_distinct [OF iR] by (simp add: S distinct_map)
  have wS: "\<forall>t \<in> set S. well_formed t"
    using indexes_well_formed [OF iR] by (simp add: S)
  from validate_loop_accept_all [OF indexes_empty dS wS]
  obtain idxS where lS: "validate_loop S Map.empty [] = Inr (idxS, S)" and iS: "indexes idxS S"
    by auto
  have "idxS = idx" by (rule indexes_unique [OF iS iR]) (simp add: S)
  with lS again have "validate_loop (S @ I) Map.empty [] = Inr (idx, S)"
    by (simp add: validate_loop_append)
  moreover have "sort_key date S = S"
    by (rule sort_key_id_if_sorted) (simp add: S)
  ultimately show ?thesis
    by (simp add: merge_records_def validate_and_remove_duplicates_def)
qed

lemma read_eri_raw_files:
  "files wa = files wb \<Longrightarrow> read_eri_raw wa f = read_eri_raw wb f"
  by (simp add: read_eri_raw_def)

lemma import_parsed_is_file:
  "is_file (snd (import_parsed parser data w)) = is_file w"
  by (auto simp: import_parsed_def Let_def split: sum.splits)

lemma try_parsers_is_file:
  "is_file (snd (try_parsers ps p w)) = is_file w"
proof (induction ps arbitrary: w)
  case Nil
  then show ?case by simp
next
  case (Cons parser rest)
  show ?case
  proof (cases "parse parser p")
    case (Inl err)
    then show ?thesis by (simp add: Let_def)
  next
    case (Inr r)
    then show ?thesis
      by (cases r) (simp_all add: Let_def Cons.IH import_parsed_is_file)
  qed
qed

lemma import_parsed_again:
  assumes "import_parsed parser data w = (Inr (), w1)" and "files wa = files w1"
  shows "fst (import_parsed parser data wa) = Inr () \<and>
    files (snd (import_parsed parser data wa)) = files w1"
proof -
  from assms(1) obtain existing merged
    where r: "read_eri_raw w (output_file_name data) = Inr existing"
      and m: "merge_records existing (transactions data) = Inr merged"
      and f: "files w1 = (files w)(output_file_name data \<mapsto> Rows merged)"
    by (auto simp: import_parsed_def Let_def split: if_splits sum.splits)
  from f assms(2) have "read_eri_raw wa (output_file_name data) = Inr merged"
    by (simp add: read_eri_raw_def)
  moreover have "merge_records merged (transactions data) = Inr merged"
    by (rule merge_records_again [OF m])
  moreover have "(files wa)(output_file_name data \<mapsto> Rows merged) = files w1"
    using f assms(2) by simp
  ultimately show ?thesis
    by (simp add: import_parsed_def bool_EriParserOutput_def Let_def)
qed

lemma try_parsers_again:
  "try_parsers ps p w = (Inr (), w1) \<Longrightarrow> files wa = files w1 \<Longrightarrow>
   fst (try_parsers ps p wa) = Inr () \<and> files (snd (try_parsers ps p wa)) = files w1"
proof (induction ps arbitrary: w wa)
  case Nil
  then show ?case by simp
next
  case (Cons parser rest)
  let ?w = "w\<lparr>parse_calls := parse_calls w @ [name parser]\<rparr>"
  let ?wa = "wa\<lparr>parse_calls := parse_calls wa @ [name parser]\<rparr>"
  have fa: "files ?wa = files w1" using Cons.prems(2) by simp
  show ?case
  proof (cases "parse parser p")
    case (Inl err)
    with Cons.prems(1) show ?thesis by (simp add: Let_def)
  next
    case (Inr r)
    show ?thesis
    proof (cases r)
      case None
      with Inr Cons.prems(1) have "try_parsers rest p ?w = (Inr (), w1)" by (simp add: Let_def)
      from Cons.IH [OF this fa] Inr None show ?thesis by (simp add: Let_def)
    next
      case (Some data)
      with Inr Cons.prems(1) have "import_parsed parser data ?w = (Inr (), w1)"
        by (simp add: Let_def)
      from import_parsed_again [OF this fa] Inr Some show ?thesis by (simp add: Let_def)
    qed
  qed
qed

lemma eri_import_from_file_again:
  assumes "eri_import_from_file parsers p w = (Inr (), w1)"
  shows "fst (eri_import_from_file parsers p w1) = Inr () \<and>
    files (snd (eri_import_from_file parsers p w1)) = files w1"
proof -
  from assms have isf: "is_file w p"
    by (auto simp: eri_import_from_file_def split: if_splits)
  with assms have t: "try_parsers parsers p (print ''Processing ERI file'' w) = (Inr (), w1)"
    by (simp add: eri_import_from_file_def)
  have "is_file w1 = is_file w"
    using try_parsers_is_file [of parsers p "print ''Processing ERI file'' w"] t by simp
  with isf have isf1: "is_file w1 p" by simp
  have "files (print ''Processing ERI file'' w1) = files w1" by simp
  from try_parsers_again [OF t this] isf1 show ?thesis
    by (simp add: eri_import_from_file_def)
qed

section \<open>The properties\<close>

subsection \<open>The three rules of the merge\<close>

text \<open>
  Claim C1. The merge runs over the stored records followed by the incoming ones, in
  order. Let \<open>res\<close> be the records accepted from the records \<open>pre\<close> processed so far, and
  let \<open>t\<close> be the next record, with a price and a non-empty ISIN. If no accepted record
  has the key of \<open>t\<close>, then \<open>t\<close> is appended to the accepted records. If an accepted record
  \<open>cur\<close> has the key of \<open>t\<close> and \<^verbatim>\<open>approx_equal\<close> holds of the two prices at the tolerance
  \<^verbatim>\<open>0.0001\<close>, then \<open>t\<close> is skipped and the accepted records stay as they are, \<open>cur\<close> among
  them. If \<^verbatim>\<open>approx_equal\<close> fails, the merge ends with \<^verbatim>\<open>InvalidTransactionError\<close> on \<open>t\<close>
  and \<open>cur\<close>, whatever records follow. The merge returns the accepted records sorted by
  date.
\<close>

theorem merge_rules:
  assumes "dedup pre = Inr res" and "price t = Some p" and "truthy (isin t)"
  shows "(key_of t \<notin> key_of ` set res \<longrightarrow> dedup (pre @ [t]) = Inr (res @ [t])) \<and>
    (\<forall>cur cp. cur \<in> set res \<and> key_of cur = key_of t \<and> price cur = Some cp \<longrightarrow>
       (approx_equal cp p (1 / 10000) \<longrightarrow> dedup (pre @ [t]) = Inr res) \<and>
       (\<not> approx_equal cp p (1 / 10000) \<longrightarrow>
          (\<forall>post. validate_and_remove_duplicates (pre @ t # post)
             = Inl (InvalidTransactionError t cur)))) \<and>
    (\<forall>existing incoming. merge_records existing incoming =
       (case dedup (existing @ incoming) of
          Inl e \<Rightarrow> Inl e
        | Inr merged \<Rightarrow> Inr (sort_key date merged)))"
proof (intro conjI allI impI)
  assume "key_of t \<notin> key_of ` set res"
  with assms show "dedup (pre @ [t]) = Inr (res @ [t])"
    by (simp add: dedup_fresh well_formed_def)
next
  fix cur cp
  assume c: "cur \<in> set res \<and> key_of cur = key_of t \<and> price cur = Some cp"
  have seen: "dedup (pre @ t # post) =
     (if approx_equal cp p tolerance then dedup (pre @ post)
      else Inl (InvalidTransactionError t cur))" for post
    using dedup_seen [OF assms] c by blast
  {
    assume "approx_equal cp p (1 / 10000)"
    then show "dedup (pre @ [t]) = Inr res"
      using seen [of "[]"] assms(1) by (simp add: tolerance_def)
  }
  {
    fix post
    assume "\<not> approx_equal cp p (1 / 10000)"
    then have "dedup (pre @ t # post) = Inl (InvalidTransactionError t cur)"
      using seen [of post] by (simp add: tolerance_def)
    then show "validate_and_remove_duplicates (pre @ t # post)
       = Inl (InvalidTransactionError t cur)"
      by (rule validate_Inl)
  }
next
  fix existing incoming
  show "merge_records existing incoming =
       (case dedup (existing @ incoming) of
          Inl e \<Rightarrow> Inl e
        | Inr merged \<Rightarrow> Inr (sort_key date merged))"
    by (simp add: merge_records_def validate_dedup)
qed

theorem merge_rules_witness:
  "dedup [ex_b, ex_a] = Inr [ex_b, ex_a] \<and>
   key_of ex_c \<notin> key_of ` set [ex_b, ex_a] \<and>
   dedup ([ex_b, ex_a] @ [ex_c]) = Inr ([ex_b, ex_a] @ [ex_c]) \<and>
   key_of ex_a = key_of ex_a_near \<and> approx_equal (12300 / 10000) (12301 / 10000) (1 / 10000) \<and>
   dedup ([ex_b, ex_a] @ [ex_a_near]) = Inr [ex_b, ex_a] \<and>
   key_of ex_a = key_of ex_a_far \<and> \<not> approx_equal (12300 / 10000) (15000 / 10000) (1 / 10000) \<and>
   validate_and_remove_duplicates ([ex_b, ex_a] @ ex_a_far # [ex_c])
     = Inl (InvalidTransactionError ex_a_far ex_a) \<and>
   merge_records [ex_b] [ex_a, ex_a_near] = Inr [ex_a, ex_b]"
proof -
  have pre: "dedup [ex_b, ex_a] = Inr [ex_b, ex_a]"
    by (simp add: example_defs merge_defs)
  have fresh: "key_of ex_c \<notin> key_of ` set [ex_b, ex_a]"
    by (simp add: example_defs key_of_def)
  have near: "ex_a \<in> set [ex_b, ex_a] \<and> key_of ex_a = key_of ex_a_near \<and>
      price ex_a = Some (12300 / 10000)"
    by (simp add: example_defs key_of_def)
  have far: "ex_a \<in> set [ex_b, ex_a] \<and> key_of ex_a = key_of ex_a_far \<and>
      price ex_a = Some (12300 / 10000)"
    by (simp add: example_defs key_of_def)
  have within: "approx_equal (12300 / 10000) (12301 / 10000) (1 / 10000)"
    by (simp add: approx_equal_def)
  have beyond: "\<not> approx_equal (12300 / 10000) (15000 / 10000) (1 / 10000)"
    by (simp add: approx_equal_def)
  have pc: "price ex_c = Some 1" by (simp add: example_defs)
  have pn: "price ex_a_near = Some (12301 / 10000)" by (simp add: example_defs)
  have pf: "price ex_a_far = Some (15000 / 10000)" by (simp add: example_defs)
  have tc: "truthy (isin ex_c)" by (simp add: example_defs truthy_def)
  have tn: "truthy (isin ex_a_near)" by (simp add: example_defs truthy_def)
  have tf: "truthy (isin ex_a_far)" by (simp add: example_defs truthy_def)
  have r1: "dedup ([ex_b, ex_a] @ [ex_c]) = Inr ([ex_b, ex_a] @ [ex_c])"
    using merge_rules [OF pre pc tc] fresh by blast
  have r2: "dedup ([ex_b, ex_a] @ [ex_a_near]) = Inr [ex_b, ex_a]"
    using merge_rules [OF pre pn tn] near within by blast
  have r3: "validate_and_remove_duplicates ([ex_b, ex_a] @ ex_a_far # [ex_c])
     = Inl (InvalidTransactionError ex_a_far ex_a)"
    using merge_rules [OF pre pf tf] far beyond by blast
  have r4: "merge_records [ex_b] [ex_a, ex_a_near] = Inr [ex_a, ex_b]"
    by (simp add: example_defs merge_defs)
  from pre fresh r1 near within r2 far beyond r3 r4 show ?thesis by blast
qed

subsection \<open>A failed merge writes nothing\<close>

text \<open>
  Claim C2. When an import ends with an error, the files of the resource directory are
  what they were before the import; in particular, when the merge of the stored records
  with the parsed ones raises \<^verbatim>\<open>InvalidTransactionError\<close>, the import ends with that error
  and no file has changed. The store is written only after the merge has returned.
\<close>

theorem no_partial_merge:
  "(eri_import_from_file parsers p w = (Inl e, w') \<longrightarrow> files w' = files w) \<and>
   (read_eri_raw w (output_file_name data) = Inr existing \<and>
    merge_records existing (transactions data) = Inl (InvalidTransactionError new cur) \<longrightarrow>
      fst (import_parsed parser data w) = Inl (InvalidTransactionError new cur) \<and>
      files (snd (import_parsed parser data w)) = files w)"
proof (intro conjI impI)
  assume a: "eri_import_from_file parsers p w = (Inl e, w')"
  show "files w' = files w"
  proof (cases "is_file w p")
    case True
    with a have "try_parsers parsers p (print ''Processing ERI file'' w) = (Inl e, w')"
      by (simp add: eri_import_from_file_def)
    from try_parsers_error_files [OF this] show ?thesis by simp
  next
    case False
    with a show ?thesis by (simp add: eri_import_from_file_def)
  qed
next
  assume a: "read_eri_raw w (output_file_name data) = Inr existing \<and>
    merge_records existing (transactions data) = Inl (InvalidTransactionError new cur)"
  then show "fst (import_parsed parser data w) = Inl (InvalidTransactionError new cur)"
    by (simp add: import_parsed_def bool_EriParserOutput_def Let_def)
  from a show "files (snd (import_parsed parser data w)) = files w"
    by (simp add: import_parsed_def bool_EriParserOutput_def Let_def)
qed

theorem no_partial_merge_witness:
  "fst (eri_import_from_file [accepts_conflicting] ''statement'' stored_world)
     = Inl (InvalidTransactionError ex_a_far ex_a) \<and>
   files (snd (eri_import_from_file [accepts_conflicting] ''statement'' stored_world))
     = files stored_world \<and>
   read_eri_raw stored_world ''fund.csv'' = Inr [ex_a] \<and>
   merge_records [ex_a] [ex_b, ex_a_far] = Inl (InvalidTransactionError ex_a_far ex_a) \<and>
   files (snd (import_parsed accepts_conflicting
       \<lparr>transactions = [ex_b, ex_a_far], output_file_name = ''fund.csv''\<rparr> stored_world))
     = files stored_world"
proof -
  let ?data = "\<lparr>transactions = [ex_b, ex_a_far], output_file_name = ''fund.csv''\<rparr>"
  let ?run = "eri_import_from_file [accepts_conflicting] ''statement'' stored_world"
  have m: "merge_records [ex_a] [ex_b, ex_a_far] = Inl (InvalidTransactionError ex_a_far ex_a)"
    by (simp add: example_defs merge_defs)
  have r: "read_eri_raw stored_world ''fund.csv'' = Inr [ex_a]"
    by (simp add: read_eri_raw_def stored_world_def empty_world_def)
  have f: "fst ?run = Inl (InvalidTransactionError ex_a_far ex_a)"
    using m by (simp add: import_defs)
  then have h: "?run = (Inl (InvalidTransactionError ex_a_far ex_a), snd ?run)"
    by (simp add: prod_eq_iff)
  have unchanged: "files (snd ?run) = files stored_world"
    using no_partial_merge [of "[accepts_conflicting]" "''statement''" stored_world
        "InvalidTransactionError ex_a_far ex_a" "snd ?run"] h
    by blast
  have parsed: "files (snd (import_parsed accepts_conflicting ?data stored_world))
      = files stored_world"
    using no_partial_merge [of _ _ stored_world _ _ ?data "[ex_a]" ex_a_far ex_a
        accepts_conflicting] r m
    by simp
  from f unchanged r m parsed show ?thesis by blast
qed

subsection \<open>The boundary of the tolerance\<close>

text \<open>
  Claim C3. Two records with the same key, each with a price and a non-empty ISIN, merge
  into the first of them when their prices differ by \<^verbatim>\<open>0.0001\<close> or less, the difference
  \<^verbatim>\<open>0.0001\<close> included, and raise \<^verbatim>\<open>InvalidTransactionError\<close> on the second and the first
  when their prices differ by more.
\<close>

theorem tolerance_boundary:
  assumes "price a = Some pa" and "price b = Some pb"
    and "truthy (isin a)" and "key_of b = key_of a"
  shows "merge_records [a] [b] =
    (if \<bar>pa - pb\<bar> \<le> 1 / 10000 then Inr [a] else Inl (InvalidTransactionError b a))"
proof -
  from assms(3,4) have "truthy (isin b)" by (simp add: key_of_def)
  with assms show ?thesis
    by (simp add: merge_records_def validate_and_remove_duplicates_def
        approx_equal_def tolerance_def)
qed

theorem tolerance_boundary_witness:
  "price ex_a = Some (12300 / 10000) \<and> price ex_a_near = Some (12301 / 10000) \<and>
   truthy (isin ex_a) \<and> key_of ex_a_near = key_of ex_a \<and>
   \<bar>12300 / 10000 - 12301 / 10000\<bar> = (1 / 10000 :: rat) \<and>
   merge_records [ex_a] [ex_a_near] = Inr [ex_a] \<and>
   price ex_a_far = Some (15000 / 10000) \<and> key_of ex_a_far = key_of ex_a \<and>
   merge_records [ex_a] [ex_a_far] = Inl (InvalidTransactionError ex_a_far ex_a)"
proof -
  have pa: "price ex_a = Some (12300 / 10000)" by (simp add: example_defs)
  have pn: "price ex_a_near = Some (12301 / 10000)" by (simp add: example_defs)
  have pf: "price ex_a_far = Some (15000 / 10000)" by (simp add: example_defs)
  have tr: "truthy (isin ex_a)" by (simp add: example_defs truthy_def)
  have kn: "key_of ex_a_near = key_of ex_a" by (simp add: example_defs key_of_def)
  have kf: "key_of ex_a_far = key_of ex_a" by (simp add: example_defs key_of_def)
  have d: "\<bar>12300 / 10000 - 12301 / 10000\<bar> = (1 / 10000 :: rat)" by simp
  have near: "merge_records [ex_a] [ex_a_near] = Inr [ex_a]"
    using tolerance_boundary [OF pa pn tr kn] by simp
  have far: "merge_records [ex_a] [ex_a_far] = Inl (InvalidTransactionError ex_a_far ex_a)"
    using tolerance_boundary [OF pa pf tr kf] by simp
  from pa pn tr kn d near pf kf far show ?thesis by blast
qed

subsection \<open>Order of the result\<close>

text \<open>
  Claim C4. When the merge returns, the returned records are in non-decreasing order of
  date, and for every date the records of that date appear in the order in which the loop
  accepted them (the input without its skipped duplicates). A store that has gone through
  one or more successful merges is in non-decreasing order of date.
\<close>

theorem sorted_stable:
  "(validate_and_remove_duplicates txs = Inr out \<longrightarrow>
      sorted (map date out) \<and>
      (\<exists>res. dedup txs = Inr res \<and>
         (\<forall>d. filter (\<lambda>t. date t = d) out = filter (\<lambda>t. date t = d) res))) \<and>
   (batches \<noteq> [] \<and> merge_all store batches = Inr final \<longrightarrow> sorted (map date final))"
proof (intro conjI impI)
  assume a: "validate_and_remove_duplicates txs = Inr out"
  then show "sorted (map date out)" by (rule validate_sorted)
  from a obtain res where d: "dedup txs = Inr res" and out: "out = sort_key date res"
    by (auto simp: validate_dedup split: sum.splits)
  have "\<forall>d. filter (\<lambda>t. date t = d) out = filter (\<lambda>t. date t = d) res"
    by (simp add: out sort_key_stable)
  with d show "\<exists>res. dedup txs = Inr res \<and>
         (\<forall>d. filter (\<lambda>t. date t = d) out = filter (\<lambda>t. date t = d) res)" by blast
next
  assume "batches \<noteq> [] \<and> merge_all store batches = Inr final"
  then show "sorted (map date final)" using merge_all_sorted by blast
qed

theorem sorted_stable_witness:
  "validate_and_remove_duplicates [ex_b, ex_c, ex_a, ex_a_near] = Inr [ex_c, ex_a, ex_b] \<and>
   dedup [ex_b, ex_c, ex_a, ex_a_near] = Inr [ex_b, ex_c, ex_a] \<and>
   sorted (map date [ex_c, ex_a, ex_b]) \<and>
   filter (\<lambda>t. date t = 738521) [ex_c, ex_a, ex_b] = [ex_c, ex_a] \<and>
   [[ex_b, ex_c], [ex_a, ex_a_near]] \<noteq> [] \<and>
   merge_all [] [[ex_b, ex_c], [ex_a, ex_a_near]] = Inr [ex_c, ex_a, ex_b]"
proof -
  have v: "validate_and_remove_duplicates [ex_b, ex_c, ex_a, ex_a_near] = Inr [ex_c, ex_a, ex_b]"
    by (simp add: example_defs merge_defs)
  have d: "dedup [ex_b, ex_c, ex_a, ex_a_near] = Inr [ex_b, ex_c, ex_a]"
    by (simp add: example_defs merge_defs)
  have m: "merge_all [] [[ex_b, ex_c], [ex_a, ex_a_near]] = Inr [ex_c, ex_a, ex_b]"
    by (simp add: example_defs merge_defs)
  note s = sorted_stable [of "[ex_b, ex_c, ex_a, ex_a_near]" "[ex_c, ex_a, ex_b]"
      "[[ex_b, ex_c], [ex_a, ex_a_near]]" "[]" "[ex_c, ex_a, ex_b]"]
  from s v have srt: "sorted (map date [ex_c, ex_a, ex_b])" by blast
  from s v d
  have "filter (\<lambda>t. date t = 738521) [ex_c, ex_a, ex_b]
      = filter (\<lambda>t. date t = 738521) [ex_b, ex_c, ex_a]"
    by auto
  then have f: "filter (\<lambda>t. date t = 738521) [ex_c, ex_a, ex_b] = [ex_c, ex_a]"
    by (simp add: example_defs)
  from v d srt f m show ?thesis by blast
qed

subsection \<open>Keys of the result\<close>

text \<open>
  Claim C5. When the merge returns, no two of the returned records have the same pair of
  ISIN and date.
\<close>

theorem no_duplicate_keys:
  assumes "validate_and_remove_duplicates txs = Inr out"
  shows "distinct (map (\<lambda>t. (isin t, date t)) out)"
proof -
  from assms obtain res where d: "dedup txs = Inr res" and out: "out = sort_key date res"
    by (auto simp: validate_dedup split: sum.splits)
  from d obtain idx where "indexes idx res" by (rule dedup_indexes)
  then have "distinct (map key_of res)" by (rule indexes_distinct)
  then have "distinct (map key_of out)"
    by (simp add: out distinct_map)
  then show ?thesis by (simp add: key_of_def [abs_def])
qed

theorem no_duplicate_keys_witness:
  "validate_and_remove_duplicates [ex_b, ex_a, ex_a_near, ex_c, ex_b] = Inr [ex_a, ex_c, ex_b] \<and>
   distinct (map (\<lambda>t. (isin t, date t)) [ex_a, ex_c, ex_b])"
proof -
  have v: "validate_and_remove_duplicates [ex_b, ex_a, ex_a_near, ex_c, ex_b]
      = Inr [ex_a, ex_c, ex_b]"
    by (simp add: example_defs merge_defs)
  from v no_duplicate_keys [OF v] show ?thesis by blast
qed

subsection \<open>Importing the same records again\<close>

text \<open>
  Claim C6. If merging the incoming records \<open>I\<close> into the stored records \<open>E\<close> returns the
  store \<open>S\<close>, then merging \<open>I\<close> into \<open>S\<close> returns \<open>S\<close> again: the same records in the same
  order. Accordingly, when the import of a file has returned without an error, importing
  the same file again returns without an error and leaves every file of the resource
  directory as the first import left it.
\<close>

theorem merge_idempotent:
  "(merge_records E I = Inr S \<longrightarrow> merge_records S I = Inr S) \<and>
   (eri_import_from_file parsers p w = (Inr (), w1) \<longrightarrow>
      fst (eri_import_from_file parsers p w1) = Inr () \<and>
      files (snd (eri_import_from_file parsers p w1)) = files w1)"
  using merge_records_again eri_import_from_file_again by blast

theorem merge_idempotent_witness:
  "merge_records [ex_a] [ex_b, ex_c, ex_a_near] = Inr [ex_a, ex_c, ex_b] \<and>
   merge_records [ex_a, ex_c, ex_b] [ex_b, ex_c, ex_a_near] = Inr [ex_a, ex_c, ex_b] \<and>
   fst (eri_import_from_file [declines, accepts] ''statement'' stored_world) = Inr () \<and>
   files (snd (eri_import_from_file [declines, accepts] ''statement'' stored_world)) ''fund.csv''
     = Some (Rows [ex_a, ex_b]) \<and>
   fst (eri_import_from_file [declines, accepts] ''statement''
     (snd (eri_import_from_file [declines, accepts] ''statement'' stored_world))) = Inr () \<and>
   files (snd (eri_import_from_file [declines, accepts] ''statement''
     (snd (eri_import_from_file [declines, accepts] ''statement'' stored_world))))
     = files (snd (eri_import_from_file [declines, accepts] ''statement'' stored_world))"
proof -
  let ?once = "eri_import_from_file [declines, accepts] ''statement'' stored_world"
  have m: "merge_records [ex_a] [ex_b, ex_c, ex_a_near] = Inr [ex_a, ex_c, ex_b]"
    by (simp add: example_defs merge_defs)
  have m2: "merge_records [ex_a, ex_c, ex_b] [ex_b, ex_c, ex_a_near] = Inr [ex_a, ex_c, ex_b]"
    using merge_idempotent [of "[ex_a]" "[ex_b, ex_c, ex_a_near]" "[ex_a, ex_c, ex_b]"] m
    by blast
  have ms: "merge_records [ex_a] [ex_b, ex_a_near] = Inr [ex_a, ex_b]"
    by (simp add: example_defs merge_defs)
  have f: "fst ?once = Inr ()"
    using ms by (simp add: import_defs)
  have c: "files (snd ?once) ''fund.csv'' = Some (Rows [ex_a, ex_b])"
    using ms by (simp add: import_defs)
  from f have h: "?once = (Inr (), snd ?once)" by (simp add: prod_eq_iff)
  have twice: "fst (eri_import_from_file [declines, accepts] ''statement'' (snd ?once)) = Inr () \<and>
      files (snd (eri_import_from_file [declines, accepts] ''statement'' (snd ?once)))
        = files (snd ?once)"
    using merge_idempotent [of _ _ _ "[declines, accepts]" "''statement''" stored_world
        "snd ?once"] h
    by blast
  from m m2 f c twice show ?thesis by blast
qed

subsection \<open>Parsers are tried in order\<close>

text \<open>
  Claim C7. For a path that is a file: when the parsers at the head of the list all return
  \<^verbatim>\<open>None\<close> and the next one returns an output, the import is the import of that output,
  and the parsers called are those at the head and the accepting one, in list order; no
  parser after it is called. When every parser returns \<^verbatim>\<open>None\<close>, the import prints the
  warning, returns without an error and leaves the files as they were.
\<close>

theorem dispatch_first_accepting:
  assumes "is_file w p"
  shows "((\<forall>q \<in> set declining. parse q p = Inr None) \<and> parse parser p = Inr (Some data) \<longrightarrow>
      eri_import_from_file (declining @ parser # later) p w =
        import_parsed parser data
          ((print ''Processing ERI file'' w)
             \<lparr>parse_calls := parse_calls w @ map name declining @ [name parser]\<rparr>) \<and>
      parse_calls (snd (eri_import_from_file (declining @ parser # later) p w)) =
        parse_calls w @ map name declining @ [name parser]) \<and>
    ((\<forall>q \<in> set parsers. parse q p = Inr None) \<longrightarrow>
      eri_import_from_file parsers p w =
        (Inr (),
         (print ''WARNING: No ERI parser found'' (print ''Processing ERI file'' w))
           \<lparr>parse_calls := parse_calls w @ map name parsers\<rparr>) \<and>
      files (snd (eri_import_from_file parsers p w)) = files w)"
proof (intro conjI impI)
  assume a: "(\<forall>q \<in> set declining. parse q p = Inr None) \<and> parse parser p = Inr (Some data)"
  then have d: "\<forall>q \<in> set declining. parse q p = Inr None" by blast
  from a show eq: "eri_import_from_file (declining @ parser # later) p w =
        import_parsed parser data
          ((print ''Processing ERI file'' w)
             \<lparr>parse_calls := parse_calls w @ map name declining @ [name parser]\<rparr>)"
    using assms by (simp add: eri_import_from_file_def try_parsers_declining [OF d] Let_def)
  show "parse_calls (snd (eri_import_from_file (declining @ parser # later) p w)) =
        parse_calls w @ map name declining @ [name parser]"
    by (simp add: eq import_parsed_calls)
next
  assume d: "\<forall>q \<in> set parsers. parse q p = Inr None"
  have "try_parsers parsers p w0 =
     try_parsers [] p (w0\<lparr>parse_calls := parse_calls w0 @ map name parsers\<rparr>)" for w0
    using try_parsers_declining [OF d, of "[]"] by simp
  then show eq: "eri_import_from_file parsers p w =
        (Inr (),
         (print ''WARNING: No ERI parser found'' (print ''Processing ERI file'' w))
           \<lparr>parse_calls := parse_calls w @ map name parsers\<rparr>)"
    using assms by (simp add: eri_import_from_file_def print_def)
  show "files (snd (eri_import_from_file parsers p w)) = files w"
    by (simp add: eq)
qed

theorem dispatch_first_accepting_witness:
  "is_file stored_world ''statement'' \<and>
   parse declines ''statement'' = Inr None \<and>
   parse accepts ''statement''
     = Inr (Some \<lparr>transactions = [ex_b, ex_a_near], output_file_name = ''fund.csv''\<rparr>) \<and>
   parse_calls (snd (eri_import_from_file ([declines] @ accepts # [accepts_later])
       ''statement'' stored_world)) = [''declines'', ''accepts''] \<and>
   files (snd (eri_import_from_file ([declines] @ accepts # [accepts_later])
       ''statement'' stored_world)) ''fund.csv'' = Some (Rows [ex_a, ex_b]) \<and>
   files (snd (eri_import_from_file ([declines] @ accepts # [accepts_later])
       ''statement'' stored_world)) ''other.csv'' = None \<and>
   fst (eri_import_from_file [declines, declines] ''statement'' stored_world) = Inr () \<and>
   stdout (snd (eri_import_from_file [declines, declines] ''statement'' stored_world))
     = [''Processing ERI file'', ''WARNING: No ERI parser found''] \<and>
   files (snd (eri_import_from_file [declines, declines] ''statement'' stored_world))
     = files stored_world"
proof -
  let ?data = "\<lparr>transactions = [ex_b, ex_a_near], output_file_name = ''fund.csv''\<rparr>"
  let ?run = "eri_import_from_file ([declines] @ accepts # [accepts_later])
       ''statement'' stored_world"
  let ?none = "eri_import_from_file [declines, declines] ''statement'' stored_world"
  have isf: "is_file stored_world ''statement''"
    by (simp add: stored_world_def empty_world_def)
  have d1: "\<forall>q \<in> set [declines]. parse q ''statement'' = Inr None"
    by (simp add: declines_def)
  have d2: "\<forall>q \<in> set [declines, declines]. parse q ''statement'' = Inr None"
    by (simp add: declines_def)
  have d0: "parse declines ''statement'' = Inr None"
    by (simp add: declines_def)
  have acc: "parse accepts ''statement'' = Inr (Some ?data)"
    by (simp add: accepts_def)
  have m: "merge_records [ex_a] [ex_b, ex_a_near] = Inr [ex_a, ex_b]"
    by (simp add: example_defs merge_defs)
  note t1 = dispatch_first_accepting [OF isf, of "[declines]" accepts ?data "[accepts_later]"]
  note t2 = dispatch_first_accepting [OF isf, of _ _ _ _ "[declines, declines]"]
  from t1 d1 acc have eq: "?run = import_parsed accepts ?data
          ((print ''Processing ERI file'' stored_world)
             \<lparr>parse_calls := parse_calls stored_world @ map name [declines] @ [name accepts]\<rparr>)"
    by blast
  from t1 d1 acc have "parse_calls (snd ?run)
      = parse_calls stored_world @ map name [declines] @ [name accepts]"
    by blast
  then have c: "parse_calls (snd ?run) = [''declines'', ''accepts'']"
    by (simp add: stored_world_def empty_world_def declines_def accepts_def)
  have f1: "files (snd ?run) ''fund.csv'' = Some (Rows [ex_a, ex_b])"
    unfolding eq using m
    by (simp add: import_parsed_def bool_EriParserOutput_def read_eri_raw_def print_def
        stored_world_def empty_world_def)
  have f2: "files (snd ?run) ''other.csv'' = None"
    unfolding eq using m
    by (simp add: import_parsed_def bool_EriParserOutput_def read_eri_raw_def print_def
        stored_world_def empty_world_def)
  from t2 d2 have eqn: "?none = (Inr (),
         (print ''WARNING: No ERI parser found'' (print ''Processing ERI file'' stored_world))
           \<lparr>parse_calls := parse_calls stored_world @ map name [declines, declines]\<rparr>)"
    by blast
  have n1: "fst ?none = Inr ()" unfolding eqn by simp
  have n2: "stdout (snd ?none) = [''Processing ERI file'', ''WARNING: No ERI parser found'']"
    unfolding eqn by (simp add: print_def stored_world_def empty_world_def)
  from t2 d2 have n3: "files (snd ?none) = files stored_world" by blast
  from isf d0 acc c f1 f2 n1 n2 n3 show ?thesis by blast
qed

subsection \<open>A parser output without records\<close>

text \<open>
  Claim C8. The claim is that an accepted output with zero records makes the import fail
  at a runtime check. The check in the source is \<^verbatim>\<open>assert data\<close>, on the output object
  and not on its list of transactions, and the object is always true. The theorem runs
  the import on such an output: it returns without an error, and the store file is
  written.
\<close>

theorem zero_records_written:
  "fst (eri_import_from_file [accepts_nothing] ''statement'' empty_world) = Inr () \<and>
   files empty_world ''fund.csv'' = None \<and>
   files (snd (eri_import_from_file [accepts_nothing] ''statement'' empty_world)) ''fund.csv''
     = Some (Rows [])"
  by (simp add: eri_import_from_file_def empty_world_def accepts_nothing_def import_parsed_def
      bool_EriParserOutput_def read_eri_raw_def merge_records_def
      validate_and_remove_duplicates_def print_def Let_def)

subsection \<open>Records without a price or without an ISIN\<close>

text \<open>
  Claim C9. A record is presented to the merge when the loop reaches it. A record without
  a price, or with an ISIN that is \<^verbatim>\<open>None\<close> or empty, ends the loop with an
  \<^verbatim>\<open>AssertionError\<close>, in every state of the index and of the result; so the merge of a
  sequence ends with an \<^verbatim>\<open>AssertionError\<close> at such a record once the records before it
  have been processed, and a sequence that contains such a record never yields an output.
  Conversely, when every record has a price and a non-empty ISIN, the merge never ends
  with an \<^verbatim>\<open>AssertionError\<close>: none of the three assertions can fail.
\<close>

theorem precondition_failures:
  "(price t = None \<or> \<not> truthy (isin t) \<longrightarrow>
      (\<exists>msg. validate_loop (t # post) idx result = Inl (AssertionError msg))) \<and>
   (dedup pre = Inr res \<and> (price t = None \<or> \<not> truthy (isin t)) \<longrightarrow>
      (\<exists>msg. validate_and_remove_duplicates (pre @ t # post) = Inl (AssertionError msg))) \<and>
   ((\<exists>u \<in> set txs. price u = None \<or> \<not> truthy (isin u)) \<longrightarrow>
      (\<forall>out. validate_and_remove_duplicates txs \<noteq> Inr out)) \<and>
   ((\<forall>u \<in> set txs. price u \<noteq> None \<and> truthy (isin u)) \<longrightarrow>
      (\<forall>msg. validate_and_remove_duplicates txs \<noteq> Inl (AssertionError msg)))"
proof (intro conjI impI)
  assume "price t = None \<or> \<not> truthy (isin t)"
  then show "\<exists>msg. validate_loop (t # post) idx result = Inl (AssertionError msg)"
    by (rule validate_loop_ill_formed)
next
  assume a: "dedup pre = Inr res \<and> (price t = None \<or> \<not> truthy (isin t))"
  then obtain idx0 where l: "validate_loop pre Map.empty [] = Inr (idx0, res)"
    by (auto simp: dedup_loop)
  from a obtain msg where "validate_loop (t # post) idx0 res = Inl (AssertionError msg)"
    using validate_loop_ill_formed by blast
  then have "dedup (pre @ t # post) = Inl (AssertionError msg)"
    by (simp add: dedup_append_Inr [OF l])
  then show "\<exists>msg. validate_and_remove_duplicates (pre @ t # post) = Inl (AssertionError msg)"
    using validate_Inl by blast
next
  assume a: "\<exists>u \<in> set txs. price u = None \<or> \<not> truthy (isin u)"
  show "\<forall>out. validate_and_remove_duplicates txs \<noteq> Inr out"
  proof (intro allI notI)
    fix out
    assume "validate_and_remove_duplicates txs = Inr out"
    then obtain r where "validate_loop txs Map.empty [] = Inr r"
      by (auto simp: validate_and_remove_duplicates_def split: sum.splits)
    then have "\<forall>u \<in> set txs. well_formed u" by (rule validate_loop_Inr_well_formed)
    with a show False by (auto simp: well_formed_def)
  qed
next
  assume "\<forall>u \<in> set txs. price u \<noteq> None \<and> truthy (isin u)"
  then have w: "\<forall>u \<in> set txs. well_formed u" by (simp add: well_formed_def)
  show "\<forall>msg. validate_and_remove_duplicates txs \<noteq> Inl (AssertionError msg)"
  proof (intro allI notI)
    fix msg
    assume "validate_and_remove_duplicates txs = Inl (AssertionError msg)"
    then have "validate_loop txs Map.empty [] = Inl (AssertionError msg)"
      by (auto simp: validate_and_remove_duplicates_def split: sum.splits)
    with validate_loop_no_assertion [OF indexes_empty w] show False by blast
  qed
qed

theorem precondition_failures_witness:
  "price ex_no_price = None \<and> \<not> truthy (isin ex_no_isin) \<and>
   dedup [ex_a] = Inr [ex_a] \<and>
   (\<exists>msg. validate_loop (ex_no_isin # [ex_b]) Map.empty [] = Inl (AssertionError msg)) \<and>
   (\<exists>msg. validate_and_remove_duplicates ([ex_a] @ ex_no_price # [ex_b])
      = Inl (AssertionError msg)) \<and>
   validate_and_remove_duplicates ([ex_a] @ ex_no_price # [ex_b])
      = Inl (AssertionError ''Transaction price not set'') \<and>
   (\<forall>out. validate_and_remove_duplicates [ex_a, ex_b, ex_no_isin] \<noteq> Inr out) \<and>
   validate_and_remove_duplicates [ex_a, ex_b, ex_no_isin]
      = Inl (AssertionError ''Transaction ISIN not set'') \<and>
   (\<forall>msg. validate_and_remove_duplicates [ex_a, ex_b, ex_a_far] \<noteq> Inl (AssertionError msg)) \<and>
   (\<forall>msg. validate_and_remove_duplicates [ex_a, ex_b, ex_a_near] \<noteq> Inl (AssertionError msg))"
proof -
  have np: "price ex_no_price = None" by (simp add: example_defs)
  have ni: "\<not> truthy (isin ex_no_isin)" by (simp add: example_defs truthy_def)
  have pre: "dedup [ex_a] = Inr [ex_a]" by (simp add: example_defs merge_defs)
  have bad: "\<exists>u \<in> set [ex_a, ex_b, ex_no_isin]. price u = None \<or> \<not> truthy (isin u)"
    using ni by simp
  have good1: "\<forall>u \<in> set [ex_a, ex_b, ex_a_far]. price u \<noteq> None \<and> truthy (isin u)"
    by (simp add: example_defs truthy_def del: not_None_eq)
  have good2: "\<forall>u \<in> set [ex_a, ex_b, ex_a_near]. price u \<noteq> None \<and> truthy (isin u)"
    by (simp add: example_defs truthy_def del: not_None_eq)
  have c1: "\<exists>msg. validate_loop (ex_no_isin # [ex_b]) Map.empty [] = Inl (AssertionError msg)"
    using precondition_failures [of ex_no_isin "[ex_b]" Map.empty "[]"] ni by blast
  have c2: "\<exists>msg. validate_and_remove_duplicates ([ex_a] @ ex_no_price # [ex_b])
      = Inl (AssertionError msg)"
    using precondition_failures [of ex_no_price "[ex_b]" _ _ "[ex_a]" "[ex_a]"] np pre by blast
  have c2': "validate_and_remove_duplicates ([ex_a] @ ex_no_price # [ex_b])
      = Inl (AssertionError ''Transaction price not set'')"
    by (simp add: example_defs merge_defs)
  have c3: "\<forall>out. validate_and_remove_duplicates [ex_a, ex_b, ex_no_isin] \<noteq> Inr out"
    using precondition_failures [of _ _ _ _ _ _ "[ex_a, ex_b, ex_no_isin]"] bad by blast
  have c3': "validate_and_remove_duplicates [ex_a, ex_b, ex_no_isin]
      = Inl (AssertionError ''Transaction ISIN not set'')"
    by (simp add: example_defs merge_defs)
  have c4: "\<forall>msg. validate_and_remove_duplicates [ex_a, ex_b, ex_a_far]
      \<noteq> Inl (AssertionError msg)"
    using precondition_failures [of _ _ _ _ _ _ "[ex_a, ex_b, ex_a_far]"] good1 by blast
  have c5: "\<forall>msg. validate_and_remove_duplicates [ex_a, ex_b, ex_a_near]
      \<noteq> Inl (AssertionError msg)"
    using precondition_failures [of _ _ _ _ _ _ "[ex_a, ex_b, ex_a_near]"] good2 by blast
  from np ni pre c1 c2 c2' c3 c3' c4 c5 show ?thesis by blast
qed

subsection \<open>Duplicate keys among the stored records\<close>

text \<open>
  Claim C10. The merge of stored and incoming records is the merge of their
  concatenation, so where the stored records end and the incoming ones begin makes no
  difference to the result. A stored record \<open>t\<close> whose key has already been accepted from
  the stored records before it, as \<open>cur\<close>, is dropped when \<^verbatim>\<open>approx_equal\<close> holds of the two
  prices, and ends the merge with \<^verbatim>\<open>InvalidTransactionError\<close> on \<open>t\<close> and \<open>cur\<close> otherwise;
  in particular, of two stored records \<open>a\<close> and \<open>b\<close> with the same key at the head of the
  store, the first is kept or the error is raised. The merge is a total function: its
  value is defined for every pair of sequences.
\<close>

theorem duplicates_in_existing:
  "merge_records (e1 @ e2) incoming = merge_records e1 (e2 @ incoming) \<and>
   (dedup ex1 = Inr res \<and> cur \<in> set res \<and> key_of cur = key_of t \<and>
    price cur = Some cp \<and> price t = Some p \<and> truthy (isin t) \<longrightarrow>
      merge_records (ex1 @ t # ex2) incoming =
        (if approx_equal cp p (1 / 10000) then merge_records (ex1 @ ex2) incoming
         else Inl (InvalidTransactionError t cur))) \<and>
   (price a = Some pa \<and> price b = Some pb \<and> truthy (isin a) \<and> key_of b = key_of a \<longrightarrow>
      merge_records (a # b # ex2) incoming =
        (if approx_equal pa pb (1 / 10000) then merge_records (a # ex2) incoming
         else Inl (InvalidTransactionError b a)))"
proof (intro conjI impI)
  show "merge_records (e1 @ e2) incoming = merge_records e1 (e2 @ incoming)"
    by (simp add: merge_records_def)
next
  assume a: "dedup ex1 = Inr res \<and> cur \<in> set res \<and> key_of cur = key_of t \<and>
    price cur = Some cp \<and> price t = Some p \<and> truthy (isin t)"
  then have "dedup (ex1 @ t # ex2 @ incoming) =
     (if approx_equal cp p tolerance then dedup (ex1 @ ex2 @ incoming)
      else Inl (InvalidTransactionError t cur))"
    using dedup_seen by blast
  then show "merge_records (ex1 @ t # ex2) incoming =
        (if approx_equal cp p (1 / 10000) then merge_records (ex1 @ ex2) incoming
         else Inl (InvalidTransactionError t cur))"
    by (simp add: merge_records_def validate_dedup tolerance_def)
next
  assume a: "price a = Some pa \<and> price b = Some pb \<and> truthy (isin a) \<and> key_of b = key_of a"
  then have "truthy (isin b)" by (simp add: key_of_def)
  with a show "merge_records (a # b # ex2) incoming =
        (if approx_equal pa pb (1 / 10000) then merge_records (a # ex2) incoming
         else Inl (InvalidTransactionError b a))"
    by (simp add: merge_records_def validate_and_remove_duplicates_def tolerance_def)
qed

theorem duplicates_in_existing_witness:
  "dedup [ex_b, ex_a] = Inr [ex_b, ex_a] \<and> ex_a \<in> set [ex_b, ex_a] \<and>
   key_of ex_a = key_of ex_a_near \<and> key_of ex_a_far = key_of ex_a \<and>
   approx_equal (12300 / 10000) (12301 / 10000) (1 / 10000) \<and>
   \<not> approx_equal (12300 / 10000) (15000 / 10000) (1 / 10000) \<and>
   merge_records ([ex_b, ex_a] @ ex_a_near # [ex_c]) [ex_a]
     = merge_records ([ex_b, ex_a] @ [ex_c]) [ex_a] \<and>
   merge_records ([ex_b, ex_a] @ ex_a_near # [ex_c]) [ex_a] = Inr [ex_a, ex_c, ex_b] \<and>
   merge_records (ex_a # ex_a_far # [ex_b]) [ex_c] = Inl (InvalidTransactionError ex_a_far ex_a) \<and>
   merge_records ([ex_a] @ [ex_a_far]) [ex_c] = merge_records [ex_a] ([ex_a_far] @ [ex_c])"
proof -
  have pre: "dedup [ex_b, ex_a] = Inr [ex_b, ex_a]"
    by (simp add: example_defs merge_defs)
  have mem: "ex_a \<in> set [ex_b, ex_a]" by simp
  have kn: "key_of ex_a = key_of ex_a_near" by (simp add: example_defs key_of_def)
  have kf: "key_of ex_a_far = key_of ex_a" by (simp add: example_defs key_of_def)
  have pa: "price ex_a = Some (12300 / 10000)" by (simp add: example_defs)
  have pn: "price ex_a_near = Some (12301 / 10000)" by (simp add: example_defs)
  have pf: "price ex_a_far = Some (15000 / 10000)" by (simp add: example_defs)
  have tn: "truthy (isin ex_a_near)" by (simp add: example_defs truthy_def)
  have ta: "truthy (isin ex_a)" by (simp add: example_defs truthy_def)
  have within: "approx_equal (12300 / 10000) (12301 / 10000) (1 / 10000)"
    by (simp add: approx_equal_def)
  have beyond: "\<not> approx_equal (12300 / 10000) (15000 / 10000) (1 / 10000)"
    by (simp add: approx_equal_def)
  have e1: "merge_records ([ex_b, ex_a] @ ex_a_near # [ex_c]) [ex_a] =
        (if approx_equal (12300 / 10000) (12301 / 10000) (1 / 10000)
         then merge_records ([ex_b, ex_a] @ [ex_c]) [ex_a]
         else Inl (InvalidTransactionError ex_a_near ex_a))"
    using duplicates_in_existing [of _ _ "[ex_a]" "[ex_b, ex_a]" "[ex_b, ex_a]" ex_a ex_a_near
        "12300 / 10000" "12301 / 10000" "[ex_c]"] pre mem kn pa pn tn
    by blast
  have r1: "merge_records ([ex_b, ex_a] @ ex_a_near # [ex_c]) [ex_a]
     = merge_records ([ex_b, ex_a] @ [ex_c]) [ex_a]"
    by (subst e1) (simp only: within if_True)
  have r1': "merge_records ([ex_b, ex_a] @ [ex_c]) [ex_a] = Inr [ex_a, ex_c, ex_b]"
    by (simp add: example_defs merge_defs)
  have e2: "merge_records (ex_a # ex_a_far # [ex_b]) [ex_c] =
        (if approx_equal (12300 / 10000) (15000 / 10000) (1 / 10000)
         then merge_records (ex_a # [ex_b]) [ex_c]
         else Inl (InvalidTransactionError ex_a_far ex_a))"
    using duplicates_in_existing [of _ _ "[ex_c]" _ _ _ _ _ _ "[ex_b]" ex_a "12300 / 10000"
        ex_a_far "15000 / 10000"] pa pf ta kf
    by blast
  have r2: "merge_records (ex_a # ex_a_far # [ex_b]) [ex_c]
     = Inl (InvalidTransactionError ex_a_far ex_a)"
    by (subst e2) (simp only: beyond if_False)
  have r3: "merge_records ([ex_a] @ [ex_a_far]) [ex_c] = merge_records [ex_a] ([ex_a_far] @ [ex_c])"
    using duplicates_in_existing [of "[ex_a]" "[ex_a_far]" "[ex_c]"] by blast
  from r1 r1' have r1'': "merge_records ([ex_b, ex_a] @ ex_a_near # [ex_c]) [ex_a]
     = Inr [ex_a, ex_c, ex_b]" by (rule trans)
  from pre mem kn kf within beyond r1 r1'' r2 r3 show ?thesis by blast
qed

end
